theory Spec2Isabelle
  imports
    Main
    "HOL-Library.Char_ord"
    "HOL-Library.List_Lexorder"
    "HOL-Library.Multiset"
    "HOL-Library.Word"
begin

section \<open>JavaScript values\<close>

text \<open>
  The values that the functions of \<^verbatim>\<open>lib/util/errors.js\<close> build and compare: \<^verbatim>\<open>undefined\<close>,
  strings, arrays, plain objects and instances of \<^verbatim>\<open>Error\<close>. An object is a map from
  property names to values; property order is not observable by any function modelled
  here, so it is not represented. \<open>JError m\<close> is \<^verbatim>\<open>new Error(m)\<close>: an object whose only
  property of its own is the message, which \<^verbatim>\<open>for ... in\<close> does not visit.
  Strings are compared by \<^verbatim>\<open><\<close> character by character (lexicographically on the
  character codes), which is the order of \<open>string\<close> under \<open>List_Lexorder\<close> and \<open>Char_ord\<close>.
\<close>

datatype jsval =
    JUndefined
  | JStr string
  | JArr "jsval list"
  | JObj "string \<Rightarrow> jsval option"
  | JError string

text \<open>\<^verbatim>\<open>Array.prototype.join\<close> on strings.\<close>

fun js_join :: "string \<Rightarrow> string list \<Rightarrow> string" where
  "js_join sep [] = []"
| "js_join sep [x] = x"
| "js_join sep (x # y # ys) = x @ sep @ js_join sep (y # ys)"

text \<open>
  \<^verbatim>\<open>ToString\<close>: an array is its elements joined by a comma, with \<^verbatim>\<open>undefined\<close> elements
  printed as the empty string; a plain object is \<^verbatim>\<open>[object Object]\<close>; an error is its name
  and message.
\<close>

fun js_toString :: "jsval \<Rightarrow> string" where
  "js_toString JUndefined = ''undefined''"
| "js_toString (JStr s) = s"
| "js_toString (JArr xs) =
     js_join '','' (map (\<lambda>x. if x = JUndefined then [] else js_toString x) xs)"
| "js_toString (JObj m) = ''[object Object]''"
| "js_toString (JError m) = (if m = [] then ''Error'' else ''Error: '' @ m)"

text \<open>
  The relational operators \<^verbatim>\<open>a < b\<close> and \<^verbatim>\<open>a > b\<close>. Both operands are converted to
  primitives; strings, arrays and objects all become strings and are compared as strings.
  \<^verbatim>\<open>undefined\<close> becomes \<^verbatim>\<open>NaN\<close>, and every comparison with \<^verbatim>\<open>NaN\<close> is false.
\<close>

definition js_lt :: "jsval \<Rightarrow> jsval \<Rightarrow> bool" where
  "js_lt a b =
     (if a = JUndefined \<or> b = JUndefined then False else js_toString a < js_toString b)"

definition js_gt :: "jsval \<Rightarrow> jsval \<Rightarrow> bool" where
  "js_gt a b = js_lt b a"

text \<open>Truthiness, as tested by \<^verbatim>\<open>!x\<close>, \<^verbatim>\<open>x || y\<close> and \<^verbatim>\<open>if (x)\<close>.\<close>

fun js_truthy :: "jsval \<Rightarrow> bool" where
  "js_truthy JUndefined = False"
| "js_truthy (JStr s) = (s \<noteq> [])"
| "js_truthy (JArr xs) = True"
| "js_truthy (JObj m) = True"
| "js_truthy (JError m) = True"

definition js_or :: "jsval \<Rightarrow> jsval \<Rightarrow> jsval" where
  "js_or a b = (if js_truthy a then a else b)"

text \<open>
  Property read \<^verbatim>\<open>o.k\<close> for the property names the source reads (\<^verbatim>\<open>id\<close>, \<^verbatim>\<open>field\<close>,
  \<^verbatim>\<open>uuid\<close>, \<^verbatim>\<open>provision_start_ip\<close>): a missing property reads as \<^verbatim>\<open>undefined\<close>, and strings
  and arrays have none of them. Reading a property of \<^verbatim>\<open>undefined\<close> itself throws; the
  callers below check for it where it can happen.
\<close>

fun js_get :: "jsval \<Rightarrow> string \<Rightarrow> jsval" where
  "js_get (JObj m) k = (case m k of Some v \<Rightarrow> v | None \<Rightarrow> JUndefined)"
| "js_get (JError m) k = (if k = ''message'' then JStr m else JUndefined)"
| "js_get v k = JUndefined"

text \<open>Decimal notation of an array index.\<close>

fun decimal :: "nat \<Rightarrow> string" where
  "decimal n =
     (if n < 10 then [''0123456789'' ! n]
      else decimal (n div 10) @ [''0123456789'' ! (n mod 10)])"

text \<open>
  The properties a \<^verbatim>\<open>for (e in x)\<close> loop visits, with their values \<^verbatim>\<open>x[e]\<close>: the
  properties of an object, the indices of an array, the character positions of a string.
\<close>

fun js_props :: "jsval \<Rightarrow> (string \<Rightarrow> jsval option)" where
  "js_props JUndefined = Map.empty"
| "js_props (JStr s) = map_of (zip (map decimal [0..<length s]) (map (\<lambda>c. JStr [c]) s))"
| "js_props (JArr xs) = map_of (zip (map decimal [0..<length xs]) xs)"
| "js_props (JObj m) = m"
| "js_props (JError m) = Map.empty"

section \<open>Argument checks of assert-plus\<close>

datatype js_error = AssertionError string | TypeError string

definition is_string :: "jsval \<Rightarrow> bool" where
  "is_string v = (case v of JStr s \<Rightarrow> True | _ \<Rightarrow> False)"

text \<open>\<^verbatim>\<open>typeof (v) === 'object'\<close>, which arrays and errors satisfy as well.\<close>

definition is_object :: "jsval \<Rightarrow> bool" where
  "is_object v =
     (case v of JObj m \<Rightarrow> True | JArr xs \<Rightarrow> True | JError m \<Rightarrow> True | _ \<Rightarrow> False)"

text \<open>\<^verbatim>\<open>v instanceof Error\<close>\<close>

definition is_error :: "jsval \<Rightarrow> bool" where
  "is_error v = (case v of JError m \<Rightarrow> True | _ \<Rightarrow> False)"

definition optional :: "(jsval \<Rightarrow> bool) \<Rightarrow> jsval \<Rightarrow> bool" where
  "optional chk v = (v = JUndefined \<or> chk v)"

definition is_arrayOf :: "(jsval \<Rightarrow> bool) \<Rightarrow> jsval \<Rightarrow> bool" where
  "is_arrayOf chk v = (case v of JArr xs \<Rightarrow> list_all chk xs | _ \<Rightarrow> False)"

definition is_hex :: "char \<Rightarrow> bool" where
  "is_hex c = (c \<in> set ''0123456789abcdefABCDEF'')"

text \<open>
  \<^verbatim>\<open>assert.uuid\<close>: a string of five groups of 8, 4, 4, 4 and 12 hexadecimal digits
  separated by dashes.
\<close>

definition uuid_string :: "string \<Rightarrow> bool" where
  "uuid_string s =
     (length s = 36 \<and>
      list_all is_hex (take 8 s) \<and> s ! 8 = CHR ''-'' \<and>
      list_all is_hex (take 4 (drop 9 s)) \<and> s ! 13 = CHR ''-'' \<and>
      list_all is_hex (take 4 (drop 14 s)) \<and> s ! 18 = CHR ''-'' \<and>
      list_all is_hex (take 4 (drop 19 s)) \<and> s ! 23 = CHR ''-'' \<and>
      list_all is_hex (drop 24 s))"

definition is_uuid :: "jsval \<Rightarrow> bool" where
  "is_uuid v = (case v of JStr s \<Rightarrow> uuid_string s | _ \<Rightarrow> False)"

section \<open>Constants and the restify error base classes\<close>

text \<open>
  \<^verbatim>\<open>lib/util/constants.js\<close> supplies the message texts; they are a parameter of every
  function that reads them. \<open>POOL_FULL_MSG\<close> stands for
  \<^verbatim>\<open>util.format(constants.fmt.POOL_FULL_MSG, pool_uuid)\<close> as a function of the pool UUID.
\<close>

record constants =
  SUBNET_FULL_MSG :: string
  SUBNETS_EXHAUSTED_MSG :: string
  POOL_FULL_MSG :: "string \<Rightarrow> string"
  INVALID_PARAMS :: string
  UNKNOWN_PARAMS :: string

definition MSG_duplicate :: string where "MSG_duplicate = ''Already exists''"
definition MSG_internal :: string where "MSG_internal = ''Internal error''"
definition MSG_missingParam :: string where "MSG_missingParam = ''Missing parameter''"
definition MSG_missingParams :: string where "MSG_missingParams = ''Missing parameters''"

text \<open>
  An error object. \<open>network_uuid\<close> and \<open>pool_uuid\<close> are \<open>JUndefined\<close> and \<open>stop\<close> is \<open>None\<close>
  on the classes that never assign them.
\<close>

record rest_error =
  name :: string
  restCode :: jsval
  statusCode :: nat
  message :: jsval
  body :: jsval
  cause :: jsval
  network_uuid :: jsval
  pool_uuid :: jsval
  stop :: "bool option"

text \<open>
  The options object handed to a restify constructor. Only the options of
  \<^verbatim>\<open>InternalError\<close> have the key \<^verbatim>\<open>cause\<close>.
\<close>

record rest_options =
  opt_message :: jsval
  opt_restCode :: jsval
  opt_statusCode :: "nat option"
  opt_body :: jsval

record cause_options = rest_options +
  opt_cause :: jsval

text \<open>
  The restify library builds the error from the options object: the message and body
  given there are the error's; the status code is the one given, and otherwise the HTTP
  status of the class. \<open>rc\<close> is the restCode the class gives the error. An error built
  from options without a cause has none.
\<close>

definition restify_error :: "string \<Rightarrow> nat \<Rightarrow> jsval \<Rightarrow> 'a rest_options_scheme \<Rightarrow> rest_error" where
  "restify_error cls dflt rc opts =
     \<lparr> name = cls,
       restCode = rc,
       statusCode = (case opt_statusCode opts of Some s \<Rightarrow> s | None \<Rightarrow> dflt),
       message = opt_message opts,
       body = opt_body opts,
       cause = JUndefined,
       network_uuid = JUndefined,
       pool_uuid = JUndefined,
       stop = None \<rparr>"

text \<open>\<^verbatim>\<open>restify.RestError\<close> takes its restCode from the options.\<close>

definition restify_RestError :: "rest_options \<Rightarrow> rest_error" where
  "restify_RestError opts = restify_error ''RestError'' 500 (opt_restCode opts) opts"

text \<open>
  \<^verbatim>\<open>restify.InvalidArgumentError\<close> sets the restCode of its class, \<^verbatim>\<open>InvalidArgument\<close>, and
  ignores the one in the options.
\<close>

definition restify_InvalidArgumentError :: "rest_options \<Rightarrow> rest_error" where
  "restify_InvalidArgumentError opts =
     restify_error ''InvalidArgumentError'' 409 (JStr ''InvalidArgument'') opts"

text \<open>
  restify builds its errors on the verror library, which takes a cause only if it is an
  instance of \<^verbatim>\<open>Error\<close>. Given any other cause, the releases of verror that check it throw
  (\<^verbatim>\<open>cause is not an Error\<close>), and the older releases leave the error without a cause.
  The source files do not fix the release, so the behaviour is a parameter.
\<close>

datatype verror_policy = RejectCause | DropCause

definition verror_cause :: "verror_policy \<Rightarrow> jsval \<Rightarrow> js_error + jsval" where
  "verror_cause P c =
     (if \<not> js_truthy c then Inr JUndefined
      else if is_error c then Inr c
      else case P of
             RejectCause \<Rightarrow> Inl (AssertionError ''cause is not an Error'')
           | DropCause \<Rightarrow> Inr JUndefined)"

text \<open>
  \<^verbatim>\<open>restify.InternalServerError\<close> is an HTTP error: it has status 500 unless the options
  give another, it has no restCode (the one in the options is ignored), and its cause is
  the one verror accepts.
\<close>

definition restify_InternalServerError ::
  "verror_policy \<Rightarrow> cause_options \<Rightarrow> js_error + rest_error" where
  "restify_InternalServerError P opts =
     (case verror_cause P (opt_cause opts) of
        Inl a \<Rightarrow> Inl a
      | Inr c \<Rightarrow>
          Inr ((restify_error ''InternalServerError'' 500 JUndefined opts) \<lparr> cause := c \<rparr>))"

section \<open>Elements of a response's errors array\<close>

text \<open>\<^verbatim>\<open>invalidParam(field, message, extra)\<close>\<close>

definition invalidParam :: "constants \<Rightarrow> jsval \<Rightarrow> jsval \<Rightarrow> jsval \<Rightarrow> js_error + jsval" where
  "invalidParam C field msg extra =
     (if \<not> is_string field then Inl (AssertionError ''field'')
      else
        let param = [''field'' \<mapsto> field,
                     ''code'' \<mapsto> JStr ''InvalidParameter'',
                     ''message'' \<mapsto> js_or msg (JStr (INVALID_PARAMS C))]
        in Inr (JObj (if js_truthy extra then param ++ js_props extra else param)))"

section \<open>Error classes\<close>

text \<open>
  \<^verbatim>\<open>InternalError(cause, message)\<close>. The check of \<open>cause\<close> lets every object pass; restify
  then takes the cause as verror does.
\<close>

definition InternalError :: "verror_policy \<Rightarrow> jsval \<Rightarrow> jsval \<Rightarrow> js_error + rest_error" where
  "InternalError P c msg =
     (if \<not> is_object c then Inl (AssertionError ''cause'')
      else if \<not> optional is_string msg then Inl (AssertionError ''message'')
      else
        let m = (if \<not> js_truthy msg then JStr MSG_internal else msg)
        in restify_InternalServerError P
             \<lparr> opt_message = m,
               opt_restCode = JStr ''InternalError'',
               opt_statusCode = None,
               opt_body = JObj [''code'' \<mapsto> JStr ''InternalError'', ''message'' \<mapsto> m],
               opt_cause = c \<rparr>)"

text \<open>\<^verbatim>\<open>InvalidParamsError(message, errors)\<close>\<close>

definition InvalidParamsError :: "jsval \<Rightarrow> jsval \<Rightarrow> js_error + rest_error" where
  "InvalidParamsError msg errors =
     (if \<not> is_string msg then Inl (AssertionError ''message'')
      else if \<not> is_arrayOf is_object errors then Inl (AssertionError ''errors'')
      else Inr ((restify_RestError
             \<lparr> opt_message = msg,
               opt_restCode = JStr ''InvalidParameters'',
               opt_statusCode = Some 422,
               opt_body = JObj [''code'' \<mapsto> JStr ''InvalidParameters'',
                                ''message'' \<mapsto> msg,
                                ''errors'' \<mapsto> errors] \<rparr>)
             \<lparr> name := ''InvalidParamsError'' \<rparr>))"

text \<open>\<^verbatim>\<open>InUseError(message, errors)\<close>\<close>

definition InUseError :: "jsval \<Rightarrow> jsval \<Rightarrow> js_error + rest_error" where
  "InUseError msg errors =
     (if \<not> is_string msg then Inl (AssertionError ''message'')
      else if \<not> is_arrayOf is_object errors then Inl (AssertionError ''errors'')
      else Inr ((restify_InvalidArgumentError
             \<lparr> opt_message = msg,
               opt_restCode = JStr ''InUse'',
               opt_statusCode = Some 422,
               opt_body = JObj [''code'' \<mapsto> JStr ''InUse'',
                                ''message'' \<mapsto> msg,
                                ''errors'' \<mapsto> errors] \<rparr>)
             \<lparr> name := ''InUseError'' \<rparr>))"

text \<open>\<^verbatim>\<open>SubnetFullError(network_uuid)\<close>\<close>

definition SubnetFullError :: "constants \<Rightarrow> jsval \<Rightarrow> js_error + rest_error" where
  "SubnetFullError C u =
     (if \<not> is_uuid u then Inl (AssertionError ''network_uuid'')
      else Inr ((restify_RestError
             \<lparr> opt_message = JStr (SUBNET_FULL_MSG C),
               opt_restCode = JStr ''SubnetFull'',
               opt_statusCode = Some 507,
               opt_body = JObj [''code'' \<mapsto> JStr ''SubnetFull'',
                                ''message'' \<mapsto> JStr (SUBNET_FULL_MSG C),
                                ''network_uuid'' \<mapsto> u] \<rparr>)
             \<lparr> name := ''SubnetFullError'', network_uuid := u, stop := Some True \<rparr>))"

text \<open>\<^verbatim>\<open>SubnetsExhaustedError()\<close>\<close>

definition SubnetsExhaustedError :: "constants \<Rightarrow> rest_error" where
  "SubnetsExhaustedError C =
     (restify_RestError
        \<lparr> opt_message = JStr (SUBNETS_EXHAUSTED_MSG C),
          opt_restCode = JStr ''SubnetsExhausted'',
          opt_statusCode = Some 507,
          opt_body = JObj [''code'' \<mapsto> JStr ''SubnetsExhausted'',
                           ''message'' \<mapsto> JStr (SUBNETS_EXHAUSTED_MSG C)] \<rparr>)
     \<lparr> name := ''SubnetsExhaustedError'', stop := Some True \<rparr>"

text \<open>
  \<^verbatim>\<open>PoolFullError(field, pool_uuid)\<close>. The second check reports its argument under the
  name \<^verbatim>\<open>network_uuid\<close>, as the source does.
\<close>

definition PoolFullError :: "constants \<Rightarrow> jsval \<Rightarrow> jsval \<Rightarrow> js_error + rest_error" where
  "PoolFullError C field u =
     (if \<not> is_string field then Inl (AssertionError ''field'')
      else if \<not> is_uuid u then Inl (AssertionError ''network_uuid'')
      else
        let msg = JStr (POOL_FULL_MSG C (js_toString u))
        in case invalidParam C field msg JUndefined of
             Inl a \<Rightarrow> Inl a
           | Inr p \<Rightarrow>
               (case InvalidParamsError (JStr ''Invalid parameters'') (JArr [p]) of
                  Inl a \<Rightarrow> Inl a
                | Inr e \<Rightarrow> Inr (e \<lparr> pool_uuid := u, stop := Some False \<rparr>)))"

section \<open>Builders of error elements\<close>

text \<open>\<^verbatim>\<open>Array.prototype.map\<close> with a callback that may throw: the first throw ends the call.\<close>

fun map_throw :: "('a \<Rightarrow> js_error + 'b) \<Rightarrow> 'a list \<Rightarrow> js_error + 'b list" where
  "map_throw f [] = Inr []"
| "map_throw f (x # xs) =
     (case f x of
        Inl a \<Rightarrow> Inl a
      | Inr y \<Rightarrow> (case map_throw f xs of Inl a \<Rightarrow> Inl a | Inr ys \<Rightarrow> Inr (y # ys)))"

text \<open>
  \<^verbatim>\<open>Array.prototype.sort(comparefn)\<close>, as an insertion sort: each element in turn is moved
  left past the elements of the sorted prefix that compare greater (\<^verbatim>\<open>comparefn(tmp,
  element) > 0\<close>). \<open>insert_desc\<close> holds the sorted prefix last element first.
  \<^verbatim>\<open>undefined\<close> elements are not passed to the comparator and end up last.
\<close>

fun insert_desc :: "('a \<Rightarrow> 'a \<Rightarrow> int) \<Rightarrow> 'a \<Rightarrow> 'a list \<Rightarrow> 'a list" where
  "insert_desc comparefn element [] = [element]"
| "insert_desc comparefn element (tmp # ts) =
     (if comparefn tmp element > 0 then tmp # insert_desc comparefn element ts
      else element # tmp # ts)"

definition insertion_sort :: "('a \<Rightarrow> 'a \<Rightarrow> int) \<Rightarrow> 'a list \<Rightarrow> 'a list" where
  "insertion_sort comparefn xs = rev (foldl (\<lambda>acc x. insert_desc comparefn x acc) [] xs)"

definition array_sort :: "(jsval \<Rightarrow> jsval \<Rightarrow> int) \<Rightarrow> jsval list \<Rightarrow> jsval list" where
  "array_sort comparefn xs =
     insertion_sort comparefn (filter (\<lambda>x. x \<noteq> JUndefined) xs) @
     filter (\<lambda>x. x = JUndefined) xs"

text \<open>\<^verbatim>\<open>sortById(a, b)\<close>\<close>

definition sortById :: "jsval \<Rightarrow> jsval \<Rightarrow> int" where
  "sortById a b =
     (if js_lt (js_get a ''id'') (js_get b ''id'') then -1
      else if js_gt (js_get a ''id'') (js_get b ''id'') then 1
      else 0)"

text \<open>\<^verbatim>\<open>duplicateParam(field, message)\<close>\<close>

definition duplicateParam :: "jsval \<Rightarrow> jsval \<Rightarrow> js_error + jsval" where
  "duplicateParam field msg =
     (if \<not> is_string field then Inl (AssertionError ''field'')
      else Inr (JObj [''field'' \<mapsto> field,
                      ''code'' \<mapsto> JStr ''Duplicate'',
                      ''message'' \<mapsto> js_or msg (JStr MSG_duplicate)]))"


text \<open>\<^verbatim>\<open>missingParam(field, message)\<close>\<close>

definition missingParam :: "jsval \<Rightarrow> jsval \<Rightarrow> js_error + jsval" where
  "missingParam field msg =
     (if \<not> is_string field then Inl (AssertionError ''field'')
      else Inr (JObj [''field'' \<mapsto> field,
                      ''code'' \<mapsto> JStr ''MissingParameter'',
                      ''message'' \<mapsto> js_or msg (JStr MSG_missingParam)]))"

text \<open>
  \<^verbatim>\<open>usedBy(type, id, message)\<close>. The default message is
  \<^verbatim>\<open>util.format('In use by %s "%s"', type, id)\<close> on two strings.
\<close>

definition usedBy :: "jsval \<Rightarrow> jsval \<Rightarrow> jsval \<Rightarrow> js_error + jsval" where
  "usedBy ty ident msg =
     (if \<not> is_string ty then Inl (AssertionError ''type'')
      else if \<not> is_string ident then Inl (AssertionError ''id'')
      else Inr (JObj [''type'' \<mapsto> ty,
                      ''id'' \<mapsto> ident,
                      ''code'' \<mapsto> JStr ''UsedBy'',
                      ''message'' \<mapsto> js_or msg
                         (JStr (''In use by '' @ js_toString ty @ [CHR '' '', CHR 0x22] @
                                js_toString ident @ [CHR 0x22]))]))"

text \<open>\<^verbatim>\<open>usedByParam(field, type, id, message)\<close>\<close>

definition usedByParam :: "jsval \<Rightarrow> jsval \<Rightarrow> jsval \<Rightarrow> jsval \<Rightarrow> js_error + jsval" where
  "usedByParam field ty ident msg =
     (if \<not> is_string field then Inl (AssertionError ''field'')
      else case usedBy ty ident msg of
             Inl a \<Rightarrow> Inl a
           | Inr paramErr \<Rightarrow> Inr (JObj ((js_props paramErr)(''field'' \<mapsto> field))))"

text \<open>
  Reading \<^verbatim>\<open>net.uuid\<close> in a callback: on \<^verbatim>\<open>undefined\<close> the read itself throws.
\<close>

definition read_prop :: "jsval \<Rightarrow> string \<Rightarrow> js_error + jsval" where
  "read_prop v k = (if v = JUndefined then Inl (TypeError k) else Inr (js_get v k))"

text \<open>\<^verbatim>\<open>networkOverlapParams(nets)\<close>\<close>

definition networkOverlapParams :: "jsval list \<Rightarrow> js_error + jsval list" where
  "networkOverlapParams nets =
     (case map_throw (\<lambda>net.
              case read_prop net ''uuid'' of
                Inl a \<Rightarrow> Inl a
              | Inr u \<Rightarrow> usedByParam (JStr ''subnet'') (JStr ''network'') u
                          (JStr ''subnet overlaps with another network'')) nets of
        Inl a \<Rightarrow> Inl a
      | Inr errs \<Rightarrow> Inr (array_sort sortById errs))"

text \<open>\<^verbatim>\<open>nictagMtuInvalidForNetworks(nets)\<close>\<close>

definition nictagMtuInvalidForNetworks :: "constants \<Rightarrow> jsval list \<Rightarrow> js_error + jsval list" where
  "nictagMtuInvalidForNetworks C nets =
     (case map_throw (\<lambda>net.
              case read_prop net ''uuid'' of
                Inl a \<Rightarrow> Inl a
              | Inr u \<Rightarrow> invalidParam C (JStr ''mtu'')
                          (JStr ''nic_tag mtu must be greater than its networks'')
                          (JObj [''uuid'' \<mapsto> u])) nets of
        Inl a \<Rightarrow> Inl a
      | Inr errs \<Rightarrow> Inr (array_sort sortById errs))"

text \<open>
  \<^verbatim>\<open>sortErrsByField(errs)\<close> sorts the array in place and returns nothing; the model
  returns the array as it is after the call.
\<close>

definition fieldCompare :: "jsval \<Rightarrow> jsval \<Rightarrow> int" where
  "fieldCompare a b =
     (if js_lt (js_get a ''field'') (js_get b ''field'') then -1
      else if js_gt (js_get a ''field'') (js_get b ''field'') then 1
      else 0)"

definition sortErrsByField :: "jsval \<Rightarrow> js_error + jsval list" where
  "sortErrsByField errs =
     (if \<not> is_arrayOf is_object errs then Inl (AssertionError ''errs'')
      else Inr (array_sort fieldCompare (case errs of JArr es \<Rightarrow> es | _ \<Rightarrow> [])))"

section \<open>Test helper: the per-network tracker of the next provisionable address\<close>

text \<open>
  \<^verbatim>\<open>lib/util/ip.js\<close> supplies the address operations the helper calls; they are a
  parameter: \<open>toIPAddr\<close> parses a string and gives \<open>None\<close> for the \<^verbatim>\<open>null\<close> it returns on a
  string that is no address, \<open>ipAddrPlus\<close> is the increment, \<open>addrToString\<close> is the
  \<^verbatim>\<open>toString\<close> method of an address.
\<close>

record 'a util_ip =
  toIPAddr :: "string \<Rightarrow> 'a option"
  ipAddrPlus :: "'a \<Rightarrow> int \<Rightarrow> 'a"
  addrToString :: "'a \<Rightarrow> string"

text \<open>
  The global \<^verbatim>\<open>NET_IPS\<close>: a dictionary from network UUID to the tracked address.
  \<open>None\<close> is a missing key, \<open>Some None\<close> a stored \<^verbatim>\<open>null\<close>.
\<close>

type_synonym 'a net_ips = "string \<Rightarrow> 'a option option"

text \<open>\<^verbatim>\<open>reset()\<close>, as far as the tracker goes.\<close>

definition reset :: "'a net_ips" where
  "reset = Map.empty"

text \<open>
  The first block of \<^verbatim>\<open>nextProvisionableIP\<close>: a network seen for the first time gets its
  \<^verbatim>\<open>provision_start_ip\<close> as tracked address. The assignment happens before the check of
  the parsed address, so a failed parse leaves \<^verbatim>\<open>null\<close> behind.
\<close>

definition init_tracker :: "'a util_ip \<Rightarrow> 'a net_ips \<Rightarrow> jsval \<Rightarrow> js_error option \<times> 'a net_ips" where
  "init_tracker U ips net =
     (let k = js_toString (js_get net ''uuid'') in
      if ips k = None then
        (let p = js_get net ''provision_start_ip'' in
         if \<not> is_string p then (Some (AssertionError ''net.provision_start_ip''), ips)
         else
           let a = toIPAddr U (js_toString p); ips' = ips(k \<mapsto> a)
           in if a = None then (Some (AssertionError ''NET_IPS[net.uuid]''), ips')
              else (None, ips'))
      else (None, ips))"

text \<open>
  \<^verbatim>\<open>nextProvisionableIP(net, willFail)\<close>, with \<^verbatim>\<open>NET_IPS\<close> passed in and returned.
  \<open>willFail\<close> is \<open>None\<close> when the argument is omitted. On a stored \<^verbatim>\<open>null\<close> the call
  throws when it dereferences it.
\<close>

definition nextProvisionableIP ::
  "'a util_ip \<Rightarrow> 'a net_ips \<Rightarrow> jsval \<Rightarrow> bool option \<Rightarrow> (js_error + string) \<times> 'a net_ips" where
  "nextProvisionableIP U ips net willFail =
     (if \<not> is_object net then (Inl (AssertionError ''net''), ips)
      else
        case init_tracker U ips net of
          (Some a, ips') \<Rightarrow> (Inl a, ips')
        | (None, ips') \<Rightarrow>
            (let k = js_toString (js_get net ''uuid'') in
             case ips' k of
               Some (Some cur) \<Rightarrow>
                 (Inr (addrToString U cur),
                  if willFail \<noteq> Some True then ips'(k \<mapsto> Some (ipAddrPlus U cur 1)) else ips')
             | _ \<Rightarrow> (Inl (TypeError ''curr''), ips')))"

section \<open>The allocation engine\<close>

text \<open>
  The allocation engine (\<open>allocate\<close>, \<open>allocatePool\<close>), the network and IP record
  entities, the address arithmetic and the backing store are not among the source files.
  The definitions of this section follow sections 3, 4.1, 4.3 and 6 of the specification.
\<close>

text \<open>
  Modelled from the spec: the Network entity of section 3, whose declaration is missing.
  An address is a machine word of the family's width (32 bits for IPv4, 128 for IPv6); a
  subnet is a prefix and its length; the provisioning range is inclusive on both ends.
\<close>

record (overloaded) 'a network =
  uuid :: string
  subnet :: "'a word \<times> nat"
  provision_start_ip :: "'a word"
  provision_end_ip :: "'a word"

text \<open>
  Modelled from the spec: the states of an IP record (section 3), whose declaration is
  missing.
\<close>

datatype ip_state = Free | Reserved | Provisioning | Used

text \<open>
  Modelled from the spec: the backing store of IP records, which is an external
  collaborator and missing from the source files: a dictionary keyed by network UUID and
  address (sections 3 and 6).
\<close>

type_synonym 'a store = "string \<times> 'a word \<Rightarrow> ip_state option"

text \<open>
  Modelled from the spec: \<open>contains(subnet, address)\<close> of section 4.1, from the missing
  address arithmetic: membership of an address in a CIDR range, where the address and
  the prefix agree on the leading bits.
\<close>

definition contains :: "'a::len word \<times> nat \<Rightarrow> 'a word \<Rightarrow> bool" where
  "contains sn a =
     (drop_bit (LENGTH('a) - snd sn) a = drop_bit (LENGTH('a) - snd sn) (fst sn))"

text \<open>
  Modelled from the spec: the invariant of a network (section 3), whose validation code
  is missing: \<open>provision_start_ip \<le> provision_end_ip\<close>, both within the subnet.
\<close>

definition network_valid :: "'a::len network \<Rightarrow> bool" where
  "network_valid net =
     (provision_start_ip net \<le> provision_end_ip net \<and>
      contains (subnet net) (provision_start_ip net) \<and>
      contains (subnet net) (provision_end_ip net))"

text \<open>
  Modelled from the spec: \<open>putIfAbsent\<close> of the missing backing store (section 6), the
  conditional write that succeeds only if no record exists for the key; \<open>None\<close> is the
  outcome Conflict.
\<close>

definition putIfAbsent :: "'a store \<Rightarrow> string \<times> 'a word \<Rightarrow> ip_state \<Rightarrow> 'a store option" where
  "putIfAbsent st k v = (if st k = None then Some (st(k \<mapsto> v)) else None)"

text \<open>
  Modelled from the spec: the test of the missing allocation engine for an address
  already present as a non-free IP record (section 4.3, step 2).
\<close>

definition non_free :: "'a store \<Rightarrow> string \<times> 'a word \<Rightarrow> bool" where
  "non_free st k = (case st k of None \<Rightarrow> False | Some Free \<Rightarrow> False | Some s \<Rightarrow> True)"

text \<open>
  Modelled from the spec: one step of the forward scan of the missing allocation engine
  (section 4.3, step 2), wrapping at \<open>provision_end_ip\<close> back to \<open>provision_start_ip\<close>.
\<close>

definition next_address :: "'a::len network \<Rightarrow> 'a word \<Rightarrow> 'a word" where
  "next_address net a = (if a = provision_end_ip net then provision_start_ip net else a + 1)"

text \<open>
  Modelled from the spec: the failures of the missing operation \<open>allocate\<close> (section 4.3):
  SubnetFull with the network's UUID, and the internal error that a failure of the store
  is surfaced as.
\<close>

datatype alloc_error = SubnetFull string | InternalFailure

text \<open>
  Modelled from the spec: steps 2 to 4 of the missing operation \<open>allocate\<close> (section 4.3).
  The scan visits at
  most \<open>n\<close> addresses from \<open>a\<close> on, skips the excluded ones and the ones with a non-free
  record, and tries the conditional write on the first candidate; after a rejected write
  it goes on from the next address. When the addresses are used up it fails with
  SubnetFull.
\<close>

fun scan ::
  "'a::len network \<Rightarrow> 'a word set \<Rightarrow> ip_state \<Rightarrow> 'a store \<Rightarrow> nat \<Rightarrow> 'a word
     \<Rightarrow> alloc_error + 'a word \<times> 'a store" where
  "scan net exclude v st 0 a = Inl (SubnetFull (uuid net))"
| "scan net exclude v st (Suc n) a =
     (if a \<in> exclude \<or> non_free st (uuid net, a) then scan net exclude v st n (next_address net a)
      else case putIfAbsent st (uuid net, a) v of
             Some st' \<Rightarrow> Inr (a, st')
           | None \<Rightarrow> scan net exclude v st n (next_address net a))"

text \<open>
  Modelled from the spec: the number of addresses in the provisioning range, which the
  missing operation \<open>allocate\<close> scans once (section 4.3, step 2).
\<close>

definition range_size :: "'a::len network \<Rightarrow> nat" where
  "range_size net = Suc (unat (provision_end_ip net - provision_start_ip net))"

text \<open>
  Modelled from the spec: the missing operation \<open>allocate\<close> (section 4.3). Step 1 leaves the candidate start to
  the implementation, as \<open>provision_start_ip\<close> or an offset within the provisioning
  range: \<open>offset\<close> is that choice, taken modulo the size of the range. The scan then
  covers the range once. \<open>v\<close> is the state of the record that is written.
\<close>

definition allocate ::
  "'a::len network \<Rightarrow> 'a word set \<Rightarrow> nat \<Rightarrow> ip_state \<Rightarrow> 'a store
     \<Rightarrow> alloc_error + 'a word \<times> 'a store" where
  "allocate net exclude offset v st =
     scan net exclude v st (range_size net)
       (provision_start_ip net + of_nat (offset mod range_size net))"

text \<open>
  Modelled from the spec: a sequence of requests to the missing operation \<open>allocate\<close>
  against one network (section 8), each
  with its exclusion set, starting offset and record state, run one after the other on
  the store. The result lists the outcome of every request.
\<close>

fun allocate_all ::
  "'a::len network \<Rightarrow> 'a store \<Rightarrow> ('a word set \<times> nat \<times> ip_state) list
     \<Rightarrow> (alloc_error + 'a word) list" where
  "allocate_all net st [] = []"
| "allocate_all net st ((exclude, offset, v) # reqs) =
     (case allocate net exclude offset v st of
        Inl e \<Rightarrow> Inl e # allocate_all net st reqs
      | Inr (a, st') \<Rightarrow> Inr a # allocate_all net st' reqs)"

text \<open>
  Modelled from the spec: the failures of the missing operation \<open>allocatePool\<close>
  (section 4.3): PoolFull with the error object, or the failure of a member other than
  SubnetFull.
\<close>

datatype pool_error = PoolFull rest_error | MemberFailed alloc_error

text \<open>
  Modelled from the spec: the loop of the missing operation \<open>allocatePool\<close> (sections 4.2
  and 4.3). It goes through the
  members in priority order and attempts an allocation on each; on SubnetFull it goes on
  to the next member. The loop carries the PoolFullError \<open>pf\<close> and the members tried so
  far, and returns both with its outcome. Only when every member has returned SubnetFull
  does it set the stop flag of the error and fail with it.
\<close>

fun allocatePool_loop ::
  "('n \<Rightarrow> alloc_error + 'r) \<Rightarrow> rest_error \<Rightarrow> 'n list \<Rightarrow> 'n list
     \<Rightarrow> (rest_error \<times> 'n list) \<times> (pool_error + 'r)" where
  "allocatePool_loop attempt pf tried [] =
     ((pf \<lparr> stop := Some True \<rparr>, tried), Inl (PoolFull (pf \<lparr> stop := Some True \<rparr>)))"
| "allocatePool_loop attempt pf tried (m # ms) =
     (case attempt m of
        Inr r \<Rightarrow> ((pf, tried @ [m]), Inr r)
      | Inl (SubnetFull u) \<Rightarrow> allocatePool_loop attempt pf (tried @ [m]) ms
      | Inl InternalFailure \<Rightarrow> ((pf, tried @ [m]), Inl (MemberFailed InternalFailure)))"

section \<open>Sample inputs\<close>

text \<open>Message texts and a UUID for evaluating the functions at concrete inputs.\<close>

abbreviation example_constants :: constants where
  "example_constants \<equiv>
     \<lparr> SUBNET_FULL_MSG = ''subnet full'',
       SUBNETS_EXHAUSTED_MSG = ''subnets exhausted'',
       POOL_FULL_MSG = (\<lambda>u. ''pool full: '' @ u),
       INVALID_PARAMS = ''Invalid parameters'',
       UNKNOWN_PARAMS = ''Unknown parameters'' \<rparr>"

abbreviation example_uuid :: string where
  "example_uuid \<equiv> ''3c7f5393-7c69-4c7c-bc81-cb7aca031ff1''"

abbreviation uuid_a :: string where
  "uuid_a \<equiv> ''11111111-aaaa-4aaa-8aaa-aaaaaaaaaaaa''"
abbreviation uuid_b :: string where
  "uuid_b \<equiv> ''22222222-bbbb-4bbb-8bbb-bbbbbbbbbbbb''"

abbreviation example_util_ip :: "nat util_ip" where
  "example_util_ip \<equiv>
     \<lparr> toIPAddr = (\<lambda>s. if s = ''10.0.2.1'' then Some 1 else None),
       ipAddrPlus = (\<lambda>a n. nat (int a + n)),
       addrToString = (\<lambda>a. ''10.0.2.'' @ decimal a) \<rparr>"

abbreviation example_net :: jsval where
  "example_net \<equiv> JObj [''uuid'' \<mapsto> JStr uuid_a, ''provision_start_ip'' \<mapsto> JStr ''10.0.2.1'']"

abbreviation example_network :: "32 network" where
  "example_network \<equiv>
     \<lparr> uuid = uuid_a, subnet = (0x0A000200, 24),
       provision_start_ip = 0x0A000201, provision_end_ip = 0x0A000203 \<rparr>"

section \<open>Status codes\<close>

lemma restify_error_statusCode:
  "statusCode (restify_error cls dflt rc opts) =
     (case opt_statusCode opts of Some s \<Rightarrow> s | None \<Rightarrow> dflt)"
  by (simp add: restify_error_def)

lemma InvalidParamsError_statusCode:
  "InvalidParamsError msg errors = Inr e \<Longrightarrow> statusCode e = 422"
  by (auto simp: InvalidParamsError_def restify_RestError_def restify_error_statusCode
      split: if_splits)

text \<open>
  Claim C1. Every error value that a constructor returns carries the HTTP status of its
  kind: 422 for InvalidParamsError, InUseError and PoolFullError, 507 for SubnetFullError
  and SubnetsExhaustedError, 500 for InternalError (which passes no status of its own and
  so takes the status of restify's InternalServerError).
\<close>

theorem error_status_codes:
  "(InvalidParamsError msg errors = Inr e1 \<longrightarrow> statusCode e1 = 422) \<and>
   (InUseError msg errors = Inr e2 \<longrightarrow> statusCode e2 = 422) \<and>
   (PoolFullError C field pu = Inr e3 \<longrightarrow> statusCode e3 = 422) \<and>
   (SubnetFullError C nu = Inr e4 \<longrightarrow> statusCode e4 = 507) \<and>
   statusCode (SubnetsExhaustedError C) = 507 \<and>
   (InternalError P c imsg = Inr e6 \<longrightarrow> statusCode e6 = 500)"
proof -
  have p1: "InvalidParamsError msg errors = Inr e1 \<longrightarrow> statusCode e1 = 422"
    by (simp add: InvalidParamsError_statusCode)
  have p2: "InUseError msg errors = Inr e2 \<longrightarrow> statusCode e2 = 422"
    by (auto simp: InUseError_def restify_InvalidArgumentError_def restify_error_statusCode
        split: if_splits)
  have p3: "PoolFullError C field pu = Inr e3 \<longrightarrow> statusCode e3 = 422"
    by (auto simp: PoolFullError_def Let_def dest: InvalidParamsError_statusCode
        split: if_splits sum.splits)
  have p4: "SubnetFullError C nu = Inr e4 \<longrightarrow> statusCode e4 = 507"
    by (auto simp: SubnetFullError_def restify_RestError_def restify_error_statusCode
        split: if_splits)
  have p5: "statusCode (SubnetsExhaustedError C) = 507"
    by (simp add: SubnetsExhaustedError_def restify_RestError_def restify_error_statusCode)
  have p6: "InternalError P c imsg = Inr e6 \<longrightarrow> statusCode e6 = 500"
    by (auto simp: InternalError_def Let_def restify_InternalServerError_def
        restify_error_statusCode split: if_splits sum.splits)
  from p1 p2 p3 p4 p5 p6 show ?thesis by blast
qed

lemma uuid_example: "is_uuid (JStr example_uuid)"
  by (simp add: is_uuid_def uuid_string_def is_hex_def)

theorem error_status_codes_witness:
  "(\<exists>e. InvalidParamsError (JStr ''Invalid parameters'') (JArr []) = Inr e \<and> statusCode e = 422) \<and>
   (\<exists>e. InUseError (JStr ''Invalid parameters'') (JArr []) = Inr e \<and> statusCode e = 422) \<and>
   (\<exists>e. PoolFullError example_constants (JStr ''network_uuid'') (JStr example_uuid) = Inr e \<and>
        statusCode e = 422) \<and>
   (\<exists>e. SubnetFullError example_constants (JStr example_uuid) = Inr e \<and> statusCode e = 507) \<and>
   statusCode (SubnetsExhaustedError example_constants) = 507 \<and>
   (\<exists>e. InternalError RejectCause (JError ''store unavailable'') JUndefined = Inr e \<and>
        statusCode e = 500)"
proof -
  obtain e1 where h1: "InvalidParamsError (JStr ''Invalid parameters'') (JArr []) = Inr e1"
    by (simp add: InvalidParamsError_def is_string_def is_arrayOf_def)
  obtain e2 where h2: "InUseError (JStr ''Invalid parameters'') (JArr []) = Inr e2"
    by (simp add: InUseError_def is_string_def is_arrayOf_def)
  obtain e3 where h3:
    "PoolFullError example_constants (JStr ''network_uuid'') (JStr example_uuid) = Inr e3"
    using uuid_example
    by (simp add: PoolFullError_def invalidParam_def InvalidParamsError_def is_string_def
        is_arrayOf_def is_object_def)
  obtain e4 where h4: "SubnetFullError example_constants (JStr example_uuid) = Inr e4"
    using uuid_example by (simp add: SubnetFullError_def)
  obtain e6 where
    h6: "InternalError RejectCause (JError ''store unavailable'') JUndefined = Inr e6"
    by (simp add: InternalError_def is_object_def is_error_def optional_def Let_def
        restify_InternalServerError_def verror_cause_def)
  from error_status_codes [where ?e1.0 = e1 and ?e2.0 = e2 and ?e3.0 = e3 and ?e4.0 = e4 and ?e6.0 = e6
      and msg = "JStr ''Invalid parameters''" and errors = "JArr []" and C = example_constants
      and field = "JStr ''network_uuid''" and pu = "JStr example_uuid" and nu = "JStr example_uuid"
      and P = RejectCause and c = "JError ''store unavailable''" and imsg = JUndefined]
    h1 h2 h3 h4 h6
  show ?thesis by simp
qed

section \<open>SubnetFullError\<close>

text \<open>
  Claim C5. For every network UUID \<open>u\<close>, \<open>SubnetFullError\<close> succeeds and the error carries
  the code SubnetFull (as restCode and in its body), \<open>u\<close> as \<open>network_uuid\<close> both as a
  property and in its body, and a stop flag that is true from construction on.
\<close>

theorem SubnetFullError_fields:
  "is_uuid u \<Longrightarrow>
     \<exists>e. SubnetFullError C u = Inr e \<and>
         restCode e = JStr ''SubnetFull'' \<and>
         js_get (body e) ''code'' = JStr ''SubnetFull'' \<and>
         network_uuid e = u \<and>
         js_get (body e) ''network_uuid'' = u \<and>
         stop e = Some True"
  by (simp add: SubnetFullError_def restify_RestError_def restify_error_def)

theorem SubnetFullError_fields_witness:
  "\<exists>e. SubnetFullError example_constants (JStr example_uuid) = Inr e \<and>
         restCode e = JStr ''SubnetFull'' \<and>
         js_get (body e) ''code'' = JStr ''SubnetFull'' \<and>
         network_uuid e = JStr example_uuid \<and>
         js_get (body e) ''network_uuid'' = JStr example_uuid \<and>
         stop e = Some True"
  using SubnetFullError_fields [OF uuid_example, of example_constants] by simp

section \<open>InternalError\<close>

text \<open>
  Claim C8, amended. For every cause \<open>c\<close> that is an instance of \<^verbatim>\<open>Error\<close> and every
  optional message \<open>m\<close>, \<open>InternalError\<close> constructs an error that keeps \<open>c\<close> as its cause
  and has the body code InternalError; when \<open>m\<close> is omitted the message is the generic
  \<open>Internal error\<close>, and a given non-empty message is kept. Without a cause object the
  construction fails on the check of \<open>cause\<close>. A cause object that is not an instance of
  \<^verbatim>\<open>Error\<close> passes that check and is then not kept: the construction fails in restify, or
  the error is left without a cause.
\<close>

theorem InternalError_cause:
  "(is_error c \<and> optional is_string m \<longrightarrow>
      (\<exists>e. InternalError P c m = Inr e \<and> cause e = c \<and>
           js_get (body e) ''code'' = JStr ''InternalError'' \<and>
           (m = JUndefined \<longrightarrow>
              message e = JStr ''Internal error'' \<and>
              js_get (body e) ''message'' = JStr ''Internal error'') \<and>
           (js_truthy m \<longrightarrow> message e = m \<and> js_get (body e) ''message'' = m))) \<and>
   (\<not> is_object c \<longrightarrow> InternalError P c m = Inl (AssertionError ''cause'')) \<and>
   (is_object c \<and> \<not> is_error c \<and> optional is_string m \<longrightarrow>
      InternalError RejectCause c m = Inl (AssertionError ''cause is not an Error'') \<and>
      (\<exists>e. InternalError DropCause c m = Inr e \<and> cause e = JUndefined))"
proof -
  have kept: "is_error c \<and> optional is_string m \<longrightarrow>
      (\<exists>e. InternalError P c m = Inr e \<and> cause e = c \<and>
           js_get (body e) ''code'' = JStr ''InternalError'' \<and>
           (m = JUndefined \<longrightarrow>
              message e = JStr ''Internal error'' \<and>
              js_get (body e) ''message'' = JStr ''Internal error'') \<and>
           (js_truthy m \<longrightarrow> message e = m \<and> js_get (body e) ''message'' = m))"
    by (cases c; cases m)
      (auto simp: InternalError_def restify_InternalServerError_def restify_error_def
        verror_cause_def is_error_def is_object_def MSG_internal_def Let_def)
  have none: "\<not> is_object c \<longrightarrow> InternalError P c m = Inl (AssertionError ''cause'')"
    by (simp add: InternalError_def)
  have other: "is_object c \<and> \<not> is_error c \<and> optional is_string m \<longrightarrow>
      InternalError RejectCause c m = Inl (AssertionError ''cause is not an Error'') \<and>
      (\<exists>e. InternalError DropCause c m = Inr e \<and> cause e = JUndefined)"
    by (cases c)
      (auto simp: InternalError_def restify_InternalServerError_def restify_error_def
        verror_cause_def is_error_def is_object_def Let_def)
  from kept none other show ?thesis by blast
qed

theorem InternalError_cause_witness:
  "(\<exists>e. InternalError RejectCause (JError ''store unavailable'') JUndefined = Inr e \<and>
        cause e = JError ''store unavailable'' \<and>
        message e = JStr ''Internal error'' \<and>
        js_get (body e) ''message'' = JStr ''Internal error'' \<and>
        js_get (body e) ''code'' = JStr ''InternalError'') \<and>
   InternalError RejectCause JUndefined JUndefined = Inl (AssertionError ''cause'') \<and>
   InternalError RejectCause (JArr []) JUndefined =
     Inl (AssertionError ''cause is not an Error'') \<and>
   (\<exists>e. InternalError DropCause (JArr []) JUndefined = Inr e \<and> cause e = JUndefined)"
proof -
  have a: "is_error (JError ''store unavailable'') \<and> optional is_string JUndefined"
    by (simp add: is_error_def optional_def)
  have b: "\<not> is_object JUndefined"
    by (simp add: is_object_def)
  have c: "is_object (JArr []) \<and> \<not> is_error (JArr []) \<and> optional is_string JUndefined"
    by (simp add: is_object_def is_error_def optional_def)
  from InternalError_cause [of "JError ''store unavailable''" JUndefined RejectCause] a
    InternalError_cause [of JUndefined JUndefined RejectCause] b
    InternalError_cause [of "JArr []" JUndefined RejectCause] c
  show ?thesis by auto
qed

text \<open>
  The claim as stated fails on a cause that is a plain object: it passes the check of
  \<open>cause\<close>, and then either the construction fails or the error has no cause.
\<close>

theorem InternalError_cause_counterexample:
  "is_object (JObj [''code'' \<mapsto> JStr ''StoreUnavailable'']) \<and>
   InternalError RejectCause (JObj [''code'' \<mapsto> JStr ''StoreUnavailable'']) JUndefined =
     Inl (AssertionError ''cause is not an Error'') \<and>
   \<not> isl (InternalError DropCause (JObj [''code'' \<mapsto> JStr ''StoreUnavailable'']) JUndefined) \<and>
   cause (projr (InternalError DropCause (JObj [''code'' \<mapsto> JStr ''StoreUnavailable''])
      JUndefined)) \<noteq> JObj [''code'' \<mapsto> JStr ''StoreUnavailable'']"
  by (simp add: InternalError_def restify_InternalServerError_def restify_error_def
      verror_cause_def is_error_def is_object_def optional_def Let_def)

section \<open>Sorting with a comparator\<close>

text \<open>
  The comparators of \<^verbatim>\<open>errors.js\<close> compare one string property of their arguments. For such
  a comparator the insertion sort returns a permutation of its input in ascending order
  of the property, and elements with equal properties keep their input order.
\<close>

lemma insert_desc_mset: "mset (insert_desc cmp x ts) = add_mset x (mset ts)"
  by (induction ts) auto

lemma insert_desc_set: "set (insert_desc cmp x ts) = insert x (set ts)"
proof -
  have "set_mset (mset (insert_desc cmp x ts)) = set_mset (add_mset x (mset ts))"
    by (simp only: insert_desc_mset)
  then show ?thesis by simp
qed

lemma insert_desc_descending:
  fixes key :: "'a \<Rightarrow> 'k::linorder"
  assumes "sorted_wrt (\<lambda>a b. key b \<le> key a) ts"
    and "\<forall>t\<in>set ts. (cmp t x > 0) = (key x < key t)"
  shows "sorted_wrt (\<lambda>a b. key b \<le> key a) (insert_desc cmp x ts)"
  using assms
proof (induction ts)
  case Nil
  then show ?case by simp
next
  case (Cons t ts)
  show ?case
  proof (cases "cmp t x > 0")
    case True
    with Cons.prems have lt: "key x < key t" by simp
    from Cons have "sorted_wrt (\<lambda>a b. key b \<le> key a) (insert_desc cmp x ts)" by simp
    moreover from Cons.prems lt have "\<forall>y\<in>set (insert_desc cmp x ts). key y \<le> key t"
      by (auto simp: insert_desc_set)
    ultimately show ?thesis using True by simp
  next
    case False
    with Cons.prems have le: "key t \<le> key x" by (simp add: not_less)
    from Cons.prems have "\<forall>y\<in>set ts. key y \<le> key t" by simp
    with le have "\<forall>y\<in>set ts. key y \<le> key x" by (meson order_trans)
    with le Cons.prems False show ?thesis by simp
  qed
qed

lemma insert_desc_filter:
  fixes key :: "'a \<Rightarrow> 'k::linorder"
  assumes "\<forall>t\<in>set ts. (cmp t x > 0) = (key x < key t)"
  shows "filter (\<lambda>y. k = key y) (insert_desc cmp x ts) =
         (if k = key x then [x] else []) @ filter (\<lambda>y. k = key y) ts"
  using assms by (induction ts) auto

lemma foldl_insert_desc_mset:
  "mset (foldl (\<lambda>acc x. insert_desc cmp x acc) acc xs) = mset acc + mset xs"
  by (induction xs arbitrary: acc) (auto simp: insert_desc_mset)

lemma foldl_insert_desc_descending:
  fixes key :: "'a \<Rightarrow> 'k::linorder"
  assumes "sorted_wrt (\<lambda>a b. key b \<le> key a) acc"
    and "\<forall>a\<in>set acc \<union> set xs. \<forall>b\<in>set acc \<union> set xs. (cmp a b > 0) = (key b < key a)"
  shows "sorted_wrt (\<lambda>a b. key b \<le> key a) (foldl (\<lambda>acc x. insert_desc cmp x acc) acc xs)"
  using assms
proof (induction xs arbitrary: acc)
  case Nil
  then show ?case by simp
next
  case (Cons x xs)
  have "sorted_wrt (\<lambda>a b. key b \<le> key a) (insert_desc cmp x acc)"
    using Cons.prems by (intro insert_desc_descending) auto
  moreover have "\<forall>a\<in>set (insert_desc cmp x acc) \<union> set xs.
      \<forall>b\<in>set (insert_desc cmp x acc) \<union> set xs. (cmp a b > 0) = (key b < key a)"
    using Cons.prems(2) by (simp add: insert_desc_set)
  ultimately show ?case using Cons.IH by simp
qed

lemma foldl_insert_desc_filter:
  fixes key :: "'a \<Rightarrow> 'k::linorder"
  assumes "\<forall>a\<in>set acc \<union> set xs. \<forall>b\<in>set acc \<union> set xs. (cmp a b > 0) = (key b < key a)"
  shows "filter (\<lambda>y. k = key y) (foldl (\<lambda>acc x. insert_desc cmp x acc) acc xs) =
         rev (filter (\<lambda>y. k = key y) xs) @ filter (\<lambda>y. k = key y) acc"
  using assms
proof (induction xs arbitrary: acc)
  case Nil
  then show ?case by simp
next
  case (Cons x xs)
  have f: "filter (\<lambda>y. k = key y) (insert_desc cmp x acc) =
         (if k = key x then [x] else []) @ filter (\<lambda>y. k = key y) acc"
    using Cons.prems by (intro insert_desc_filter) auto
  have "\<forall>a\<in>set (insert_desc cmp x acc) \<union> set xs.
      \<forall>b\<in>set (insert_desc cmp x acc) \<union> set xs. (cmp a b > 0) = (key b < key a)"
    using Cons.prems by (simp add: insert_desc_set)
  from Cons.IH [OF this] f show ?case by simp
qed

lemma insertion_sort_mset: "mset (insertion_sort cmp xs) = mset xs"
  by (simp add: insertion_sort_def foldl_insert_desc_mset)

lemma insertion_sort_sorted:
  fixes key :: "'a \<Rightarrow> 'k::linorder"
  assumes "\<forall>a\<in>set xs. \<forall>b\<in>set xs. (cmp a b > 0) = (key b < key a)"
  shows "sorted (map key (insertion_sort cmp xs))"
proof -
  have "sorted_wrt (\<lambda>a b. key b \<le> key a) (foldl (\<lambda>acc x. insert_desc cmp x acc) [] xs)"
    using assms by (intro foldl_insert_desc_descending) auto
  then show ?thesis
    by (simp add: insertion_sort_def sorted_map sorted_wrt_rev)
qed

lemma insertion_sort_stable:
  fixes key :: "'a \<Rightarrow> 'k::linorder"
  assumes "\<forall>a\<in>set xs. \<forall>b\<in>set xs. (cmp a b > 0) = (key b < key a)"
  shows "insertion_sort cmp xs = sort_key key xs"
proof (rule properties_for_sort_key [symmetric])
  show "mset (insertion_sort cmp xs) = mset xs" by (rule insertion_sort_mset)
  show "sorted (map key (insertion_sort cmp xs))" using assms by (rule insertion_sort_sorted)
  fix k
  have "filter (\<lambda>y. key k = key y) (foldl (\<lambda>acc x. insert_desc cmp x acc) [] xs) =
         rev (filter (\<lambda>y. key k = key y) xs) @ filter (\<lambda>y. key k = key y) []"
    using assms by (intro foldl_insert_desc_filter) auto
  then show "filter (\<lambda>x. key k = key x) (insertion_sort cmp xs) = filter (\<lambda>x. key k = key x) xs"
    by (simp add: insertion_sort_def rev_filter [symmetric])
qed

lemma insertion_sort_const:
  assumes "\<forall>a\<in>set xs. \<forall>b\<in>set xs. \<not> cmp a b > 0"
  shows "insertion_sort cmp xs = xs"
proof -
  have "insertion_sort cmp xs = sort_key (\<lambda>x. ()) xs"
    using assms by (intro insertion_sort_stable) auto
  also have "\<dots> = xs"
    using sort_key_stable [of "\<lambda>x. ()" "()" xs] by simp
  finally show ?thesis .
qed

lemma map_throw_Inr:
  "\<forall>x\<in>set xs. f x = Inr (g x) \<Longrightarrow> map_throw f xs = Inr (map g xs)"
  by (induction xs) auto

lemma array_sort_objects:
  "JUndefined \<notin> set xs \<Longrightarrow> array_sort cmp xs = insertion_sort cmp xs"
proof -
  assume a: "JUndefined \<notin> set xs"
  then have "filter (\<lambda>x. x \<noteq> JUndefined) xs = xs"
    by (induction xs) auto
  moreover from a have "filter (\<lambda>x. x = JUndefined) xs = []"
    by (induction xs) auto
  ultimately show ?thesis by (simp add: array_sort_def)
qed

lemma is_string_cases: "is_string v \<Longrightarrow> \<exists>s. v = JStr s"
  by (cases v) (auto simp: is_string_def)

lemma fieldCompare_strings:
  assumes "is_string (js_get a ''field'')" and "is_string (js_get b ''field'')"
  shows "(fieldCompare a b > 0) =
         (js_toString (js_get b ''field'') < js_toString (js_get a ''field''))"
proof -
  from assms obtain s t where "js_get a ''field'' = JStr s" "js_get b ''field'' = JStr t"
    by (blast dest: is_string_cases)
  then show ?thesis
    by (auto simp: fieldCompare_def js_lt_def js_gt_def)
qed

lemma sortById_strings:
  assumes "is_string (js_get a ''id'')" and "is_string (js_get b ''id'')"
  shows "(sortById a b > 0) =
         (js_toString (js_get b ''id'') < js_toString (js_get a ''id''))"
proof -
  from assms obtain s t where "js_get a ''id'' = JStr s" "js_get b ''id'' = JStr t"
    by (blast dest: is_string_cases)
  then show ?thesis
    by (auto simp: sortById_def js_lt_def js_gt_def)
qed

lemma sortById_no_id:
  "js_get a ''id'' = JUndefined \<Longrightarrow> sortById a b = 0"
  by (simp add: sortById_def js_lt_def js_gt_def)

section \<open>sortErrsByField\<close>

text \<open>
  Claim C7. For every array of error objects whose \<open>field\<close> values are strings,
  \<open>sortErrsByField\<close> leaves the array as a permutation of the original in nondecreasing
  lexicographic order of the fields. The order is a function of the input array alone:
  it is the stable sort of the input by field, in which elements with equal fields keep
  their input order (as under the insertion sort modelled here).
\<close>

theorem sortErrsByField_sorted:
  assumes "\<forall>e\<in>set errs. is_object e \<and> is_string (js_get e ''field'')"
  shows "\<exists>out. sortErrsByField (JArr errs) = Inr out \<and>
           mset out = mset errs \<and>
           sorted (map (\<lambda>e. js_toString (js_get e ''field'')) out) \<and>
           out = sort_key (\<lambda>e. js_toString (js_get e ''field'')) errs"
proof -
  from assms have objs: "list_all is_object errs"
    by (simp add: list_all_iff)
  from assms have "JUndefined \<notin> set errs"
    by (auto simp: is_object_def)
  then have srt: "array_sort fieldCompare errs = insertion_sort fieldCompare errs"
    by (rule array_sort_objects)
  have cmp: "\<forall>a\<in>set errs. \<forall>b\<in>set errs.
      (fieldCompare a b > 0) =
      (js_toString (js_get b ''field'') < js_toString (js_get a ''field''))"
    using assms by (simp add: fieldCompare_strings)
  have res: "sortErrsByField (JArr errs) = Inr (insertion_sort fieldCompare errs)"
    using objs srt by (simp add: sortErrsByField_def is_arrayOf_def)
  have m: "mset (insertion_sort fieldCompare errs) = mset errs"
    by (rule insertion_sort_mset)
  have s: "sorted (map (\<lambda>e. js_toString (js_get e ''field'')) (insertion_sort fieldCompare errs))"
    using cmp by (rule insertion_sort_sorted)
  have d: "insertion_sort fieldCompare errs =
           sort_key (\<lambda>e. js_toString (js_get e ''field'')) errs"
    using cmp by (rule insertion_sort_stable)
  from res m s d show ?thesis by blast
qed

theorem sortErrsByField_sorted_witness:
  "\<exists>out. sortErrsByField (JArr [JObj [''field'' \<mapsto> JStr ''subnet''],
                                JObj [''field'' \<mapsto> JStr ''mtu''],
                                JObj [''field'' \<mapsto> JStr ''name'']]) = Inr out \<and>
         map (\<lambda>e. js_get e ''field'') out = [JStr ''mtu'', JStr ''name'', JStr ''subnet'']"
proof -
  let ?errs = "[JObj [''field'' \<mapsto> JStr ''subnet''],
                JObj [''field'' \<mapsto> JStr ''mtu''],
                JObj [''field'' \<mapsto> JStr ''name'']]"
  have h: "\<forall>e\<in>set ?errs. is_object e \<and> is_string (js_get e ''field'')"
    by (simp add: is_object_def is_string_def)
  from sortErrsByField_sorted [OF h] show ?thesis
    by (simp add: sort_key_def)
qed

section \<open>networkOverlapParams\<close>

lemma overlap_callback:
  assumes "is_string (js_get net ''uuid'')"
  shows "(case read_prop net ''uuid'' of
            Inl a \<Rightarrow> Inl a
          | Inr u \<Rightarrow> usedByParam (JStr ''subnet'') (JStr ''network'') u
                      (JStr ''subnet overlaps with another network'')) =
         Inr (JObj ([''type'' \<mapsto> JStr ''network'',
                     ''id'' \<mapsto> js_get net ''uuid'',
                     ''code'' \<mapsto> JStr ''UsedBy'',
                     ''message'' \<mapsto> JStr ''subnet overlaps with another network'',
                     ''field'' \<mapsto> JStr ''subnet'']))"
proof -
  from assms have "net \<noteq> JUndefined" by (auto simp: is_string_def)
  with assms show ?thesis
    by (simp add: read_prop_def usedByParam_def usedBy_def is_string_def js_or_def)
qed

text \<open>
  Claim C2, amended. For every list of conflicting networks (objects with a string
  \<open>uuid\<close>), \<open>networkOverlapParams\<close> returns exactly one error element per network, with
  code UsedBy (not InvalidParameter), type network, field subnet and the network's UUID
  as \<open>id\<close>, and the array is sorted ascending by that \<open>id\<close>.
\<close>

theorem networkOverlapParams_sorted:
  assumes "\<forall>net\<in>set nets. is_string (js_get net ''uuid'')"
  shows "\<exists>errs. networkOverlapParams nets = Inr errs \<and>
           length errs = length nets \<and>
           mset (map (\<lambda>e. js_get e ''id'') errs) = mset (map (\<lambda>net. js_get net ''uuid'') nets) \<and>
           (\<forall>e\<in>set errs. js_get e ''code'' = JStr ''UsedBy'' \<and>
                          js_get e ''type'' = JStr ''network'' \<and>
                          js_get e ''field'' = JStr ''subnet'') \<and>
           sorted (map (\<lambda>e. js_toString (js_get e ''id'')) errs)"
proof -
  let ?g = "\<lambda>net. JObj ([''type'' \<mapsto> JStr ''network'',
                     ''id'' \<mapsto> js_get net ''uuid'',
                     ''code'' \<mapsto> JStr ''UsedBy'',
                     ''message'' \<mapsto> JStr ''subnet overlaps with another network'',
                     ''field'' \<mapsto> JStr ''subnet''])"
  let ?f = "\<lambda>net. case read_prop net ''uuid'' of
                Inl a \<Rightarrow> Inl a
              | Inr u \<Rightarrow> usedByParam (JStr ''subnet'') (JStr ''network'') u
                          (JStr ''subnet overlaps with another network'')"
  let ?errs = "insertion_sort sortById (map ?g nets)"
  have "\<forall>net\<in>set nets. ?f net = Inr (?g net)"
    using assms by (simp add: overlap_callback)
  then have mp: "map_throw ?f nets = Inr (map ?g nets)"
    by (rule map_throw_Inr)
  have "JUndefined \<notin> set (map ?g nets)" by auto
  then have "array_sort sortById (map ?g nets) = ?errs"
    by (rule array_sort_objects)
  with mp have res: "networkOverlapParams nets = Inr ?errs"
    by (simp add: networkOverlapParams_def)
  have ms: "mset ?errs = mset (map ?g nets)"
    by (rule insertion_sort_mset)
  then have len: "length ?errs = length nets"
    by (metis length_map size_mset)
  have "mset (map (\<lambda>e. js_get e ''id'') ?errs) = image_mset (\<lambda>e. js_get e ''id'') (mset ?errs)"
    by simp
  also have "\<dots> = image_mset (\<lambda>e. js_get e ''id'') (mset (map ?g nets))"
    by (simp only: ms)
  also have "\<dots> = mset (map (\<lambda>net. js_get net ''uuid'') nets)"
    by (simp add: image_mset.compositionality comp_def)
  finally have ids: "mset (map (\<lambda>e. js_get e ''id'') ?errs) =
      mset (map (\<lambda>net. js_get net ''uuid'') nets)" .
  have "set ?errs = set (map ?g nets)"
    using ms by (rule mset_eq_setD)
  then have elems: "\<forall>e\<in>set ?errs. js_get e ''code'' = JStr ''UsedBy'' \<and>
                          js_get e ''type'' = JStr ''network'' \<and>
                          js_get e ''field'' = JStr ''subnet''"
    by auto
  have "\<forall>a\<in>set (map ?g nets). is_string (js_get a ''id'')"
    using assms by simp
  then have "\<forall>a\<in>set (map ?g nets). \<forall>b\<in>set (map ?g nets).
      (sortById a b > 0) = (js_toString (js_get b ''id'') < js_toString (js_get a ''id''))"
    by (simp add: sortById_strings)
  then have srt: "sorted (map (\<lambda>e. js_toString (js_get e ''id'')) ?errs)"
    by (rule insertion_sort_sorted)
  from res len ids elems srt show ?thesis by blast
qed

theorem networkOverlapParams_sorted_witness:
  "\<exists>errs. networkOverlapParams
            [JObj [''uuid'' \<mapsto> JStr uuid_b], JObj [''uuid'' \<mapsto> JStr uuid_a]] = Inr errs \<and>
     map (\<lambda>e. js_get e ''id'') errs = [JStr uuid_a, JStr uuid_b] \<and>
     map (\<lambda>e. js_get e ''code'') errs = [JStr ''UsedBy'', JStr ''UsedBy'']"
proof -
  let ?nets = "[JObj [''uuid'' \<mapsto> JStr uuid_b], JObj [''uuid'' \<mapsto> JStr uuid_a]]"
  have h: "\<forall>net\<in>set ?nets. is_string (js_get net ''uuid'')"
    by (simp add: is_string_def)
  from networkOverlapParams_sorted [OF h] show ?thesis
    by (simp add: networkOverlapParams_def read_prop_def usedByParam_def usedBy_def
        is_string_def array_sort_def insertion_sort_def sortById_def js_lt_def js_gt_def
        js_or_def)
qed

text \<open>
  The claim as stated fails on the kind of the elements: the element built for a
  conflicting network has code UsedBy, which \<open>usedByParam\<close> takes from \<open>usedBy\<close>.
\<close>

theorem networkOverlapParams_code_counterexample:
  "\<not> isl (networkOverlapParams [JObj [''uuid'' \<mapsto> JStr uuid_a]]) \<and>
   length (projr (networkOverlapParams [JObj [''uuid'' \<mapsto> JStr uuid_a]])) = 1 \<and>
   js_get (hd (projr (networkOverlapParams [JObj [''uuid'' \<mapsto> JStr uuid_a]]))) ''code'' = JStr ''UsedBy'' \<and>
   js_get (hd (projr (networkOverlapParams [JObj [''uuid'' \<mapsto> JStr uuid_a]]))) ''code'' \<noteq> JStr ''InvalidParameter''"
  by (simp add: networkOverlapParams_def read_prop_def usedByParam_def usedBy_def
        is_string_def array_sort_def insertion_sort_def js_or_def)

section \<open>nictagMtuInvalidForNetworks\<close>

text \<open>
  The elements built for the networks carry the UUID as property \<open>uuid\<close> and have no
  \<open>id\<close>, which is the property \<open>sortById\<close> reads: every comparison is 0, the sort moves
  nothing, and the elements come back in the order of the input.
\<close>

lemma mtu_callback:
  assumes "net \<noteq> JUndefined"
  shows "(case read_prop net ''uuid'' of
                Inl a \<Rightarrow> Inl a
              | Inr u \<Rightarrow> invalidParam C (JStr ''mtu'')
                          (JStr ''nic_tag mtu must be greater than its networks'')
                          (JObj [''uuid'' \<mapsto> u])) =
         Inr (JObj [''field'' \<mapsto> JStr ''mtu'',
                    ''code'' \<mapsto> JStr ''InvalidParameter'',
                    ''message'' \<mapsto> JStr ''nic_tag mtu must be greater than its networks'',
                    ''uuid'' \<mapsto> js_get net ''uuid''])"
  using assms
  by (simp add: read_prop_def invalidParam_def is_string_def js_or_def map_add_def fun_eq_iff)

lemma nictagMtuInvalidForNetworks_unsorted:
  assumes "JUndefined \<notin> set nets"
  shows "nictagMtuInvalidForNetworks C nets =
         Inr (map (\<lambda>net. JObj [''field'' \<mapsto> JStr ''mtu'',
                    ''code'' \<mapsto> JStr ''InvalidParameter'',
                    ''message'' \<mapsto> JStr ''nic_tag mtu must be greater than its networks'',
                    ''uuid'' \<mapsto> js_get net ''uuid'']) nets)"
proof -
  let ?g = "\<lambda>net. JObj [''field'' \<mapsto> JStr ''mtu'',
                    ''code'' \<mapsto> JStr ''InvalidParameter'',
                    ''message'' \<mapsto> JStr ''nic_tag mtu must be greater than its networks'',
                    ''uuid'' \<mapsto> js_get net ''uuid'']"
  let ?f = "\<lambda>net. case read_prop net ''uuid'' of
                Inl a \<Rightarrow> Inl a
              | Inr u \<Rightarrow> invalidParam C (JStr ''mtu'')
                          (JStr ''nic_tag mtu must be greater than its networks'')
                          (JObj [''uuid'' \<mapsto> u])"
  have "\<forall>net\<in>set nets. ?f net = Inr (?g net)"
  proof
    fix net
    assume "net \<in> set nets"
    with assms have "net \<noteq> JUndefined" by auto
    then show "?f net = Inr (?g net)" by (rule mtu_callback)
  qed
  then have mp: "map_throw ?f nets = Inr (map ?g nets)"
    by (rule map_throw_Inr)
  have "JUndefined \<notin> set (map ?g nets)" by auto
  then have a: "array_sort sortById (map ?g nets) = insertion_sort sortById (map ?g nets)"
    by (rule array_sort_objects)
  have "\<forall>a\<in>set (map ?g nets). \<forall>b\<in>set (map ?g nets). \<not> sortById a b > 0"
    by (auto simp: sortById_no_id)
  then have "insertion_sort sortById (map ?g nets) = map ?g nets"
    by (rule insertion_sort_const)
  with a mp show ?thesis
    by (simp add: nictagMtuInvalidForNetworks_def)
qed

text \<open>
  Claim C3. The claim says that the array returned for the networks whose MTU exceeds the
  tag's is sorted ascending by the networks' UUIDs. For two networks given in descending
  order of UUID the elements come back in that descending order: one element per
  network, with field mtu and code InvalidParameter, but unsorted.
\<close>

theorem nictagMtuInvalidForNetworks_order:
  "map (\<lambda>e. js_get e ''uuid'')
     (projr (nictagMtuInvalidForNetworks example_constants
        [JObj [''uuid'' \<mapsto> JStr uuid_b], JObj [''uuid'' \<mapsto> JStr uuid_a]])) =
   [JStr uuid_b, JStr uuid_a]"
  by (simp add: nictagMtuInvalidForNetworks_def read_prop_def invalidParam_def is_string_def
      js_or_def array_sort_def insertion_sort_def sortById_def js_lt_def js_gt_def)

section \<open>unknownParams\<close>



section \<open>PoolFullError and the stop flag\<close>

lemma allocatePool_loop_stop:
  assumes "allocatePool_loop attempt pf tried0 ms = ((pf', tried), out)"
    and "stop pf = Some False"
  shows "pool_uuid pf' = pool_uuid pf \<and>
         (stop pf' = Some True \<longrightarrow>
            tried = tried0 @ ms \<and> (\<forall>m\<in>set ms. \<exists>x. attempt m = Inl (SubnetFull x)) \<and>
            out = Inl (PoolFull pf')) \<and>
         (stop pf' \<noteq> Some True \<longrightarrow> pf' = pf \<and> out \<noteq> Inl (PoolFull pf'))"
  using assms
proof (induction ms arbitrary: tried0)
  case Nil
  then show ?case by auto
next
  case (Cons m ms)
  show ?case
  proof (cases "attempt m")
    case (Inr r)
    with Cons.prems show ?thesis by auto
  next
    case (Inl e)
    show ?thesis
    proof (cases e)
      case (SubnetFull x)
      with Inl Cons.prems
      have "allocatePool_loop attempt pf (tried0 @ [m]) ms = ((pf', tried), out)"
        by simp
      from Cons.IH [OF this Cons.prems(2)] Inl SubnetFull show ?thesis by simp
    next
      case InternalFailure
      with Inl Cons.prems show ?thesis by auto
    qed
  qed
qed

lemma PoolFullError_new:
  assumes "is_string field" and "is_uuid u"
  shows "\<exists>e. PoolFullError C field u = Inr e \<and> pool_uuid e = u \<and> stop e = Some False"
proof -
  obtain p where p: "invalidParam C field (JStr (POOL_FULL_MSG C (js_toString u))) JUndefined = Inr p"
      and obj: "is_object p"
    using assms(1) by (simp add: invalidParam_def is_object_def)
  from obj obtain e0 where e0: "InvalidParamsError (JStr ''Invalid parameters'') (JArr [p]) = Inr e0"
    by (simp add: InvalidParamsError_def is_string_def is_arrayOf_def)
  from assms p e0 show ?thesis
    by (simp add: PoolFullError_def Let_def)
qed

text \<open>
  Claim C4. For every field name and pool UUID \<open>u\<close>, the construction of a PoolFullError
  succeeds, and the new error carries \<open>pool_uuid = u\<close> and a stop flag that is false. In
  the allocation loop over the pool's members the flag of the error is true at the end
  only if every member has been tried and has returned SubnetFull, and then the loop
  fails with that error; in every other outcome the error is as constructed, with the
  flag still false.
\<close>

theorem PoolFullError_stop:
  assumes "is_string field" and "is_uuid u"
  shows "\<exists>e. PoolFullError C field u = Inr e \<and> pool_uuid e = u \<and> stop e = Some False \<and>
           (\<forall>pf' tried out.
              allocatePool_loop attempt e [] members = ((pf', tried), out) \<longrightarrow>
                pool_uuid pf' = u \<and>
                (stop pf' = Some True \<longrightarrow>
                   tried = members \<and>
                   (\<forall>m\<in>set members. \<exists>x. attempt m = Inl (SubnetFull x)) \<and>
                   out = Inl (PoolFull pf')) \<and>
                (stop pf' \<noteq> Some True \<longrightarrow> pf' = e \<and> out \<noteq> Inl (PoolFull pf')))"
proof -
  from assms obtain e where e: "PoolFullError C field u = Inr e"
      and n: "pool_uuid e = u" "stop e = Some False"
    using PoolFullError_new by blast
  have "pool_uuid pf' = u \<and>
        (stop pf' = Some True \<longrightarrow>
           tried = members \<and>
           (\<forall>m\<in>set members. \<exists>x. attempt m = Inl (SubnetFull x)) \<and>
           out = Inl (PoolFull pf')) \<and>
        (stop pf' \<noteq> Some True \<longrightarrow> pf' = e \<and> out \<noteq> Inl (PoolFull pf'))"
    if l: "allocatePool_loop attempt e [] members = ((pf', tried), out)" for pf' tried out
    using allocatePool_loop_stop [OF l n(2)] n(1) by simp
  with e n show ?thesis by blast
qed

theorem PoolFullError_stop_witness:
  "\<exists>e. PoolFullError example_constants (JStr ''network_uuid'') (JStr example_uuid) = Inr e \<and>
      stop e = Some False \<and> pool_uuid e = JStr example_uuid \<and>
      allocatePool_loop (\<lambda>m. Inl (SubnetFull m) :: alloc_error + nat) e [] [uuid_a, uuid_b] =
        ((e \<lparr> stop := Some True \<rparr>, [uuid_a, uuid_b]),
         Inl (PoolFull (e \<lparr> stop := Some True \<rparr>))) \<and>
      allocatePool_loop (\<lambda>m. if m = uuid_a then Inl (SubnetFull m) else Inr (7::nat))
          e [] [uuid_a, uuid_b] =
        ((e, [uuid_a, uuid_b]), Inr 7)"
proof -
  have f: "is_string (JStr ''network_uuid'')" by (simp add: is_string_def)
  from PoolFullError_stop [OF f uuid_example, of example_constants
      "\<lambda>m. Inl (SubnetFull m) :: alloc_error + nat" "[uuid_a, uuid_b]"]
  show ?thesis by auto
qed

section \<open>nextProvisionableIP\<close>

text \<open>
  Claim C10. Let \<open>cur\<close> be the current next provisionable address of a network: the
  address tracked for its UUID, or its parsed \<open>provision_start_ip\<close> when none is tracked
  yet. A call with \<open>willFail\<close> true returns \<open>cur\<close> and leaves \<open>cur\<close> as the tracked address,
  so that a call right after it returns the same address. A call with \<open>willFail\<close> false
  or omitted returns \<open>cur\<close> as well and advances the tracked address by exactly one
  increment, which is what the next call returns.
\<close>

theorem nextProvisionableIP_willFail:
  assumes "is_object net"
    and "ips (js_toString (js_get net ''uuid'')) = Some (Some cur) \<or>
         (ips (js_toString (js_get net ''uuid'')) = None \<and>
          js_get net ''provision_start_ip'' = JStr s \<and> toIPAddr U s = Some cur)"
    and "ips' = ips(js_toString (js_get net ''uuid'') \<mapsto> Some cur)"
    and "ips'' = ips(js_toString (js_get net ''uuid'') \<mapsto> Some (ipAddrPlus U cur 1))"
    and "flag \<noteq> Some True"
  shows "nextProvisionableIP U ips net (Some True) = (Inr (addrToString U cur), ips') \<and>
         nextProvisionableIP U ips' net (Some True) = (Inr (addrToString U cur), ips') \<and>
         nextProvisionableIP U ips' net flag = (Inr (addrToString U cur), ips'') \<and>
         nextProvisionableIP U ips net flag = (Inr (addrToString U cur), ips'') \<and>
         nextProvisionableIP U ips'' net (Some True) =
           (Inr (addrToString U (ipAddrPlus U cur 1)), ips'')"
proof -
  let ?k = "js_toString (js_get net ''uuid'')"
  have t1: "nextProvisionableIP U ips net (Some True) = (Inr (addrToString U cur), ips')"
    using assms(1,2,3)
    by (auto simp: nextProvisionableIP_def init_tracker_def Let_def is_string_def fun_upd_idem)
  have t2: "nextProvisionableIP U ips' net (Some True) = (Inr (addrToString U cur), ips')"
    using assms(1,3)
    by (simp add: nextProvisionableIP_def init_tracker_def Let_def)
  have t3: "nextProvisionableIP U ips' net flag = (Inr (addrToString U cur), ips'')"
    using assms(1,3,4,5)
    by (simp add: nextProvisionableIP_def init_tracker_def Let_def)
  have t4: "nextProvisionableIP U ips net flag = (Inr (addrToString U cur), ips'')"
    using assms(1,2,4,5)
    by (auto simp: nextProvisionableIP_def init_tracker_def Let_def is_string_def)
  have t5: "nextProvisionableIP U ips'' net (Some True) =
           (Inr (addrToString U (ipAddrPlus U cur 1)), ips'')"
    using assms(1,4)
    by (simp add: nextProvisionableIP_def init_tracker_def Let_def)
  from t1 t2 t3 t4 t5 show ?thesis by simp
qed

theorem nextProvisionableIP_willFail_witness:
  "nextProvisionableIP example_util_ip reset example_net (Some True) =
     (Inr ''10.0.2.1'', [uuid_a \<mapsto> Some 1]) \<and>
   nextProvisionableIP example_util_ip [uuid_a \<mapsto> Some 1] example_net (Some True) =
     (Inr ''10.0.2.1'', [uuid_a \<mapsto> Some 1]) \<and>
   nextProvisionableIP example_util_ip [uuid_a \<mapsto> Some 1] example_net None =
     (Inr ''10.0.2.1'', [uuid_a \<mapsto> Some 2]) \<and>
   nextProvisionableIP example_util_ip reset example_net None =
     (Inr ''10.0.2.1'', [uuid_a \<mapsto> Some 2]) \<and>
   nextProvisionableIP example_util_ip [uuid_a \<mapsto> Some 2] example_net (Some True) =
     (Inr ''10.0.2.2'', [uuid_a \<mapsto> Some 2])"
proof -
  have a: "is_object example_net" by (simp add: is_object_def)
  have b: "(reset :: nat net_ips) (js_toString (js_get example_net ''uuid'')) = Some (Some 1) \<or>
         ((reset :: nat net_ips) (js_toString (js_get example_net ''uuid'')) = None \<and>
          js_get example_net ''provision_start_ip'' = JStr ''10.0.2.1'' \<and>
          toIPAddr example_util_ip ''10.0.2.1'' = Some 1)"
    by (simp add: reset_def)
  have c: "[uuid_a \<mapsto> Some 1] = (reset :: nat net_ips)(js_toString (js_get example_net ''uuid'') \<mapsto> Some 1)"
    by (simp add: reset_def)
  have d: "[uuid_a \<mapsto> Some 2] =
      (reset :: nat net_ips)(js_toString (js_get example_net ''uuid'') \<mapsto>
         Some (ipAddrPlus example_util_ip 1 1))"
    by (simp add: reset_def)
  have e: "(None :: bool option) \<noteq> Some True" by simp
  from nextProvisionableIP_willFail [OF a b c d e] show ?thesis by simp
qed

section \<open>The provisioning range\<close>

lemma next_address_in_range:
  fixes net :: "'a::len network"
  assumes "provision_start_ip net \<le> a" and "a \<le> provision_end_ip net"
  shows "provision_start_ip net \<le> next_address net a \<and> next_address net a \<le> provision_end_ip net"
proof (cases "a = provision_end_ip net")
  case True
  with assms show ?thesis by (simp add: next_address_def)
next
  case False
  with assms(2) have lt: "a < provision_end_ip net" by simp
  then have up: "a + 1 \<le> provision_end_ip net" by (rule inc_le)
  have "unat (provision_end_ip net) < 2 ^ LENGTH('a)" by (rule unsigned_less)
  moreover from lt have "unat a < unat (provision_end_ip net)" by (simp add: word_less_nat_alt)
  ultimately have "unat a + 1 < 2 ^ LENGTH('a)" by linarith
  then have "unat (a + 1) = unat a + 1"
    by (simp add: unat_word_ariths)
  then have "a \<le> a + 1" by (simp add: word_le_nat_alt)
  with assms(1) have "provision_start_ip net \<le> a + 1" by simp
  with up False show ?thesis by (simp add: next_address_def)
qed

lemma candidate_in_range:
  fixes net :: "'a::len network"
  assumes "provision_start_ip net \<le> provision_end_ip net"
  shows "provision_start_ip net \<le> provision_start_ip net + of_nat (offset mod range_size net) \<and>
         provision_start_ip net + of_nat (offset mod range_size net) \<le> provision_end_ip net"
proof -
  let ?s = "provision_start_ip net" and ?e = "provision_end_ip net"
  let ?k = "offset mod range_size net"
  have "?k < range_size net" by (simp add: range_size_def)
  then have k: "?k \<le> unat (?e - ?s)" by (simp add: range_size_def)
  from assms have d: "unat (?e - ?s) = unat ?e - unat ?s"
    by (simp add: unat_sub)
  from assms have "unat ?s \<le> unat ?e" by (simp add: word_le_nat_alt)
  with k d have b: "unat ?s + ?k \<le> unat ?e" by simp
  have "unat ?e < 2 ^ LENGTH('a)" by (rule unsigned_less)
  with b have lt: "unat ?s + ?k < 2 ^ LENGTH('a)" by (rule le_less_trans)
  then have "?k < 2 ^ LENGTH('a)" by simp
  then have "unat (of_nat ?k :: 'a word) = ?k" by (simp add: unat_of_nat)
  with lt have u: "unat (?s + of_nat ?k) = unat ?s + ?k"
    by (simp add: unat_word_ariths)
  with b show ?thesis by (simp add: word_le_nat_alt)
qed

lemma scan_in_range:
  fixes net :: "'a::len network"
  assumes "scan net exclude v st n a = Inr (b, st')"
    and "provision_start_ip net \<le> a" and "a \<le> provision_end_ip net"
  shows "provision_start_ip net \<le> b \<and> b \<le> provision_end_ip net"
  using assms
proof (induction n arbitrary: a)
  case 0
  then show ?case by simp
next
  case (Suc n)
  from Suc.prems(2,3)
  have nx: "provision_start_ip net \<le> next_address net a"
      "next_address net a \<le> provision_end_ip net"
    by (simp_all add: next_address_in_range)
  show ?case
  proof (cases "scan net exclude v st n (next_address net a) = Inr (b, st')")
    case True
    from Suc.IH [OF True nx] show ?thesis .
  next
    case False
    with Suc.prems(1) have "a = b"
      by (auto split: if_splits option.splits)
    with Suc.prems(2,3) show ?thesis by simp
  qed
qed

lemma allocate_in_range:
  fixes net :: "'a::len network"
  assumes "network_valid net" and "allocate net exclude offset v st = Inr (b, st')"
  shows "provision_start_ip net \<le> b \<and> b \<le> provision_end_ip net"
proof -
  from assms(1) have le: "provision_start_ip net \<le> provision_end_ip net"
    by (simp add: network_valid_def)
  from candidate_in_range [OF le, of offset] assms(2) show ?thesis
    unfolding allocate_def by (blast dest: scan_in_range)
qed

text \<open>
  Claim C9. For every valid network (start of the provisioning range not above its end,
  both within the subnet) and every sequence of allocation requests, on any store, every
  address that \<open>allocate\<close> returns lies in the inclusive range from \<open>provision_start_ip\<close>
  to \<open>provision_end_ip\<close>.
\<close>

theorem allocate_within_provision_range:
  fixes net :: "'a::len network"
  assumes "network_valid net" and "Inr b \<in> set (allocate_all net st reqs)"
  shows "provision_start_ip net \<le> b \<and> b \<le> provision_end_ip net"
  using assms(2)
proof (induction reqs arbitrary: st)
  case Nil
  then show ?case by simp
next
  case (Cons r reqs)
  obtain exclude offset v where r: "r = (exclude, offset, v)"
    by (cases r) auto
  show ?case
  proof (cases "allocate net exclude offset v st")
    case (Inl e)
    with Cons r show ?thesis by auto
  next
    case (Inr p)
    obtain c st' where p: "p = (c, st')" by (cases p) auto
    from Inr p assms(1) have "provision_start_ip net \<le> c \<and> c \<le> provision_end_ip net"
      by (blast dest: allocate_in_range)
    with Cons r Inr p show ?thesis by auto
  qed
qed

lemma example_network_valid: "network_valid example_network"
  by (simp add: network_valid_def contains_def)

theorem allocate_within_provision_range_witness:
  "network_valid example_network \<and>
   allocate_all example_network Map.empty [({}, 0, Used), ({0x0A000202}, 4, Used)] =
     [Inr 0x0A000201, Inr 0x0A000203] \<and>
   provision_start_ip example_network \<le> 0x0A000203 \<and>
   0x0A000203 \<le> provision_end_ip example_network"
proof -
  have rs: "range_size example_network = Suc (Suc (Suc 0))"
    by (simp add: range_size_def)
  have o1: "0 mod Suc (Suc (Suc 0)) = (0::nat)" and o2: "4 mod Suc (Suc (Suc 0)) = (1::nat)"
    by simp_all
  have a1: "allocate example_network {} 0 Used Map.empty =
      Inr (0x0A000201, [(uuid_a, 0x0A000201) \<mapsto> Used])"
    unfolding allocate_def rs o1 by (simp add: non_free_def putIfAbsent_def)
  have a2: "allocate example_network {0x0A000202} 4 Used [(uuid_a, 0x0A000201) \<mapsto> Used] =
      Inr (0x0A000203, [(uuid_a, 0x0A000201) \<mapsto> Used, (uuid_a, 0x0A000203) \<mapsto> Used])"
    unfolding allocate_def rs o2
    by (simp add: non_free_def putIfAbsent_def next_address_def)
  have r: "allocate_all example_network Map.empty [({}, 0, Used), ({0x0A000202}, 4, Used)] =
     [Inr 0x0A000201, Inr 0x0A000203]"
    by (simp add: a1 a2)
  then have m: "Inr 0x0A000203 \<in>
      set (allocate_all example_network Map.empty [({}, 0, Used), ({0x0A000202}, 4, Used)])"
    by simp
  from allocate_within_provision_range [OF example_network_valid m] example_network_valid r
  show ?thesis by simp
qed

end
